theory Spec2Isabelle
  imports Complex_Main "HOL-Library.Sublist"
begin

section \<open>The queue model of the frontend (app/types.ts)\<close>

text \<open>
  The frontend keeps the download queue as a list of \<open>QueueItem\<close> objects and
  rewrites it on every backend event (\<open>handleEvent\<close> in app/hooks/useDownlink.ts).
  A TypeScript \<open>T | null\<close> field is an \<open>option\<close>; a \<open>number\<close> is a \<open>real\<close>
  (the handler only copies numbers and stores the constant 100). Strings of queue
  items and events are \<open>string\<close>s; the handler only copies and compares them, except
  for \<open>normalizeStatus\<close> below. The field \<open>id\<close> is called \<open>id_item\<close> here.

  The \<open>status\<close> field has the TypeScript type \<open>DownloadStatus\<close>, a union of nine
  string literals, but \<open>normalizeStatus\<close> stores any lower-cased backend string
  through an unchecked cast, so the field is modelled as the string it is at run time.
\<close>

type_synonym number = real

record QueueItem =
  id_item :: string
  source_url :: string
  title :: "string option"
  uploader :: "string option"
  thumbnail_url :: "string option"
  duration_seconds :: "number option"
  status :: string
  phase :: "string option"
  progress_percent :: "number option"
  bytes_downloaded :: "number option"
  bytes_total :: "number option"
  speed_bps :: "number option"
  eta_seconds :: "number option"
  preset_id :: string
  output_dir :: string
  final_path :: "string option"
  error_message :: "string option"

text \<open>The nine literals of the type \<open>DownloadStatus\<close>.\<close>

definition DownloadStatus :: "string list" where
  "DownloadStatus = [''queued'', ''fetching'', ''ready'', ''downloading'', ''postprocessing'',
     ''stopped'', ''done'', ''failed'', ''canceled'']"

subsection \<open>Event payloads\<close>

record versions =
  app_version :: string
  yt_dlp_version :: "string option"
  ffmpeg_version :: "string option"

record progress_phase =
  phase_name :: string
  phase_detail :: "string option"

record progress_data =
  pr_percent :: "number option"
  pr_bytes_downloaded :: "number option"
  pr_bytes_total :: "number option"
  pr_speed_bps :: "number option"
  pr_eta_seconds :: "number option"
  pr_phase :: "progress_phase option"

record failure_action =
  action_kind :: string
  action_label :: string

record metadata_info =
  info_title :: "string option"
  info_uploader :: "string option"
  info_duration_seconds :: "number option"
  info_thumbnail_url :: "string option"
  info_webpage_url :: "string option"

text \<open>
  The event names of \<open>DownlinkEventType\<close> that \<open>handleEvent\<close> has no \<open>case\<close> for.
\<close>

datatype DownlinkEventType =
    ClipboardUrlDetected | MetadataStarted | PlaylistExpanded | DownloadQueued
  | ToolUpdateAvailable | ToolUpdateProgress | ToolUpdateCompleted | ToolUpdateFailed

text \<open>
  One constructor per event that \<open>handleEvent\<close> switches on, with the payload the
  handler casts \<open>event.data\<close> to; the first argument of a download event is \<open>data.id\<close>.
  \<open>DownloadFailed id error_code user_message actions\<close> is the \<open>DownloadFailedEvent\<close>
  of types.ts.
\<close>

datatype DownlinkEvent =
    AppReady versions
  | DownloadProgress string string progress_data
  | DownloadCompleted string string
  | DownloadFailed string string string "failure_action list"
  | DownloadStopped string
  | DownloadCanceled string
  | DownloadStarted string
  | MetadataReady string metadata_info
  | DownloadPostProcessing string string
  | OtherEvent DownlinkEventType

subsection \<open>The state of the hook and the event handler\<close>

record hook_state =
  isReady :: bool
  appVersion :: "string option"
  ytDlpVersion :: "string option"
  ffmpegVersion :: "string option"
  queue :: "QueueItem list"
  history :: "QueueItem list"

text \<open>
  \<open>String.prototype.toLowerCase\<close> on one character: the ASCII capitals, which are
  what the backend's SCREAMING_SNAKE_CASE statuses are made of, go to their small
  letters; every other character is left as it is.
\<close>

definition toLowerCase_char :: "char \<Rightarrow> char" where
  "toLowerCase_char c =
     (case map_of (zip ''ABCDEFGHIJKLMNOPQRSTUVWXYZ'' ''abcdefghijklmnopqrstuvwxyz'') c of
        Some l \<Rightarrow> l
      | None \<Rightarrow> c)"

definition normalizeStatus :: "string \<Rightarrow> string" where
  "normalizeStatus s = map toLowerCase_char s"

text \<open>\<open>a ?? b\<close>: the left operand unless it is null.\<close>

definition nullish :: "'a option \<Rightarrow> 'a option \<Rightarrow> 'a option" where
  "nullish a b = (case a of Some v \<Rightarrow> Some v | None \<Rightarrow> b)"

text \<open>
  The object each \<open>case\<close> builds for the item whose id matches: the spread
  \<open>...item\<close> followed by the overriding fields. The phase of a started item is the
  text "Starting" followed by an ellipsis character (U+2026), here in UTF-8.
\<close>

definition starting_label :: string where
  "starting_label = ''Starting'' @ [char_of (226::nat), char_of (128::nat), char_of (166::nat)]"

fun update_item :: "DownlinkEvent \<Rightarrow> QueueItem \<Rightarrow> QueueItem" where
  "update_item (DownloadProgress i s p) item =
     item\<lparr>status := normalizeStatus s,
          progress_percent := pr_percent p,
          speed_bps := pr_speed_bps p,
          eta_seconds := pr_eta_seconds p,
          phase := (case pr_phase p of Some ph \<Rightarrow> Some (phase_name ph) | None \<Rightarrow> None)\<rparr>"
| "update_item (DownloadCompleted i path) item =
     item\<lparr>status := ''done'', progress_percent := Some 100,
          final_path := Some path, phase := Some ''Completed''\<rparr>"
| "update_item (DownloadFailed i code msg acts) item =
     item\<lparr>status := ''failed'', phase := Some ''Failed'', error_message := Some msg\<rparr>"
| "update_item (DownloadStopped i) item =
     item\<lparr>status := ''stopped'', phase := Some ''Stopped'',
          speed_bps := None, eta_seconds := None\<rparr>"
| "update_item (DownloadCanceled i) item =
     item\<lparr>status := ''canceled'', phase := Some ''Canceled''\<rparr>"
| "update_item (DownloadStarted i) item =
     item\<lparr>status := ''downloading'', phase := Some starting_label\<rparr>"
| "update_item (MetadataReady i info) item =
     item\<lparr>title := nullish (info_title info) (title item),
          uploader := nullish (info_uploader info) (uploader item),
          thumbnail_url := nullish (info_thumbnail_url info) (thumbnail_url item),
          duration_seconds := nullish (info_duration_seconds info) (duration_seconds item)\<rparr>"
| "update_item (DownloadPostProcessing i step) item =
     item\<lparr>status := ''postprocessing'', phase := Some step\<rparr>"
| "update_item (AppReady v) item = item"
| "update_item (OtherEvent t) item = item"

text \<open>\<open>data.id\<close> of the events whose handler maps over the queue.\<close>

fun event_id :: "DownlinkEvent \<Rightarrow> string option" where
  "event_id (DownloadProgress i s p) = Some i"
| "event_id (DownloadCompleted i path) = Some i"
| "event_id (DownloadFailed i code msg acts) = Some i"
| "event_id (DownloadStopped i) = Some i"
| "event_id (DownloadCanceled i) = Some i"
| "event_id (DownloadStarted i) = Some i"
| "event_id (MetadataReady i info) = Some i"
| "event_id (DownloadPostProcessing i step) = Some i"
| "event_id (AppReady v) = None"
| "event_id (OtherEvent t) = None"

text \<open>
  \<open>setQueue((prev) => prev.map((item) => item.id === data.id ? {...} : item))\<close>.
\<close>

definition map_queue :: "DownlinkEvent \<Rightarrow> string \<Rightarrow> QueueItem list \<Rightarrow> QueueItem list" where
  "map_queue e i prev = map (\<lambda>item. if id_item item = i then update_item e item else item) prev"

fun handleEvent :: "DownlinkEvent \<Rightarrow> hook_state \<Rightarrow> hook_state" where
  "handleEvent (AppReady v) st =
     st\<lparr>appVersion := Some (app_version v), ytDlpVersion := yt_dlp_version v,
        ffmpegVersion := ffmpeg_version v, isReady := True\<rparr>"
| "handleEvent (DownloadProgress i s p) st =
     st\<lparr>queue := map_queue (DownloadProgress i s p) i (queue st)\<rparr>"
| "handleEvent (DownloadCompleted i path) st =
     st\<lparr>queue := map_queue (DownloadCompleted i path) i (queue st)\<rparr>"
| "handleEvent (DownloadFailed i code msg acts) st =
     st\<lparr>queue := map_queue (DownloadFailed i code msg acts) i (queue st)\<rparr>"
| "handleEvent (DownloadStopped i) st =
     st\<lparr>queue := map_queue (DownloadStopped i) i (queue st)\<rparr>"
| "handleEvent (DownloadCanceled i) st =
     st\<lparr>queue := map_queue (DownloadCanceled i) i (queue st)\<rparr>"
| "handleEvent (DownloadStarted i) st =
     st\<lparr>queue := map_queue (DownloadStarted i) i (queue st)\<rparr>"
| "handleEvent (MetadataReady i info) st =
     st\<lparr>queue := map_queue (MetadataReady i info) i (queue st)\<rparr>"
| "handleEvent (DownloadPostProcessing i step) st =
     st\<lparr>queue := map_queue (DownloadPostProcessing i step) i (queue st)\<rparr>"
| "handleEvent (OtherEvent t) st = st"

subsection \<open>The buttons of a queue row (app/components/QueueItem.tsx, app/page.tsx)\<close>

text \<open>
  \<open>refreshQueue\<close> replaces the queue by the backend's list (\<open>get_queue\<close>); outside
  the desktop shell it does nothing. The backend call is an input of the model.
\<close>

definition refreshQueue :: "QueueItem list \<Rightarrow> hook_state \<Rightarrow> hook_state" where
  "refreshQueue items st = st\<lparr>queue := items\<rparr>"

text \<open>
  The backend commands the hook's download controls \<open>invoke\<close>, in the order they are
  awaited. \<open>add_urls\<close> and \<open>expand_playlist\<close> are the commands that create records
  (their options are left out).
\<close>

datatype invoke =
    start_download string | stop_download string | cancel_download string
  | retry_download string | remove_download string | get_queue
  | open_file string | open_folder string
  | add_urls string | expand_playlist string

definition refreshQueue_calls :: "bool \<Rightarrow> invoke list" where
  "refreshQueue_calls isTauri = (if isTauri then [get_queue] else [])"

definition startDownload :: "bool \<Rightarrow> string \<Rightarrow> invoke list" where
  "startDownload isTauri i = start_download i # refreshQueue_calls isTauri"

definition stopDownload :: "bool \<Rightarrow> string \<Rightarrow> invoke list" where
  "stopDownload isTauri i = [stop_download i]"

definition cancelDownload :: "bool \<Rightarrow> string \<Rightarrow> invoke list" where
  "cancelDownload isTauri i = cancel_download i # refreshQueue_calls isTauri"

definition retryDownload :: "bool \<Rightarrow> string \<Rightarrow> invoke list" where
  "retryDownload isTauri i = retry_download i # refreshQueue_calls isTauri"

definition removeDownload :: "bool \<Rightarrow> string \<Rightarrow> invoke list" where
  "removeDownload isTauri i = remove_download i # refreshQueue_calls isTauri"

definition openFile :: "string \<Rightarrow> invoke list" where
  "openFile path = [open_file path]"

definition openFolder :: "string \<Rightarrow> invoke list" where
  "openFolder path = [open_folder path]"

text \<open>
  The props of \<open>QueueItemComponent\<close> and what the queue tab of page.tsx binds them to.
\<close>

datatype callback =
    onStart string | onStop string | onCancel string | onRetry string
  | onRemove string | onOpenFile string | onOpenFolder string

fun queue_tab_binding :: "bool \<Rightarrow> callback \<Rightarrow> invoke list" where
  "queue_tab_binding isTauri (onStart i) = startDownload isTauri i"
| "queue_tab_binding isTauri (onStop i) = stopDownload isTauri i"
| "queue_tab_binding isTauri (onCancel i) = cancelDownload isTauri i"
| "queue_tab_binding isTauri (onRetry i) = retryDownload isTauri i"
| "queue_tab_binding isTauri (onRemove i) = removeDownload isTauri i"
| "queue_tab_binding isTauri (onOpenFile path) = openFile path"
| "queue_tab_binding isTauri (onOpenFolder path) = openFolder path"

datatype button =
    StartButton | StopButton | ResumeButton | RetryButton
  | OpenFileButton | OpenFolderButton | RemoveButton | CancelButton

definition isDone :: "QueueItem \<Rightarrow> bool" where
  "isDone item \<longleftrightarrow> status item = ''done''"

definition isActive :: "QueueItem \<Rightarrow> bool" where
  "isActive item \<longleftrightarrow>
     status item = ''downloading'' \<or> status item = ''postprocessing'' \<or> status item = ''fetching''"

definition isQueued :: "QueueItem \<Rightarrow> bool" where
  "isQueued item \<longleftrightarrow> status item = ''queued'' \<or> status item = ''ready''"

definition isStopped :: "QueueItem \<Rightarrow> bool" where
  "isStopped item \<longleftrightarrow> status item = ''stopped''"

definition isFailed :: "QueueItem \<Rightarrow> bool" where
  "isFailed item \<longleftrightarrow> status item = ''failed''"

definition isCanceled :: "QueueItem \<Rightarrow> bool" where
  "isCanceled item \<longleftrightarrow> status item = ''canceled''"

text \<open>A string or null used as a condition: true unless null or empty.\<close>

definition truthy :: "string option \<Rightarrow> bool" where
  "truthy x \<longleftrightarrow> (case x of None \<Rightarrow> False | Some v \<Rightarrow> v \<noteq> [])"

definition handleOpenFile :: "QueueItem \<Rightarrow> callback option" where
  "handleOpenFile item =
     (case final_path item of None \<Rightarrow> None
      | Some p \<Rightarrow> if p = [] then None else Some (onOpenFile p))"

definition handleOpenFolder :: "QueueItem \<Rightarrow> callback option" where
  "handleOpenFolder item =
     (let path = (case final_path item of
                    Some p \<Rightarrow> if isDone item \<and> p \<noteq> [] then p else output_dir item
                  | None \<Rightarrow> output_dir item)
      in if path \<noteq> [] then Some (onOpenFolder path) else None)"

text \<open>
  The buttons a row renders, in the order of the JSX, each with the callback its
  \<open>onClick\<close> handler calls.
\<close>

definition QueueItemComponent :: "QueueItem \<Rightarrow> (button \<times> callback option) list" where
  "QueueItemComponent item =
     (if isQueued item then [(StartButton, Some (onStart (id_item item)))] else []) @
     (if isActive item then [(StopButton, Some (onStop (id_item item)))] else []) @
     (if isStopped item then [(ResumeButton, Some (onStart (id_item item)))] else []) @
     (if isFailed item then [(RetryButton, Some (onRetry (id_item item)))] else []) @
     (if isDone item \<and> truthy (final_path item) then [(OpenFileButton, handleOpenFile item)] else []) @
     (if isDone item \<or> output_dir item \<noteq> [] then [(OpenFolderButton, handleOpenFolder item)] else []) @
     (if isQueued item \<or> isStopped item \<or> isFailed item \<or> isCanceled item
      then [(RemoveButton, Some (onRemove (id_item item)))] else []) @
     (if isActive item then [(CancelButton, Some (onCancel (id_item item)))] else [])"

text \<open>What a click on a button of a row of the queue tab sends to the backend.\<close>

definition click :: "bool \<Rightarrow> QueueItem \<Rightarrow> button \<Rightarrow> invoke list option" where
  "click isTauri item b =
     (case map_of (QueueItemComponent item) b of
        None \<Rightarrow> None
      | Some None \<Rightarrow> Some []
      | Some (Some cb) \<Rightarrow> Some (queue_tab_binding isTauri cb))"

section \<open>URL extraction before submission (app/page.tsx)\<close>

text \<open>
  The text of the URL field is a JavaScript string: a sequence of UTF-16 code units,
  which is what the regular expression and \<open>trim\<close> classify. It is modelled as the
  list of its code units; \<open>js\<close> gives the code units of an ASCII literal.
\<close>

type_synonym utf16 = "nat list"

definition js :: "string \<Rightarrow> utf16" where
  "js s = map of_char s"

text \<open>
  The class \<open>\s\<close>, which is also what \<open>trim\<close> strips: tab, line feed, vertical tab,
  form feed, carriage return, space, U+00A0, U+1680, U+2000 to U+200A, U+2028, U+2029,
  U+202F, U+205F, U+3000 and U+FEFF.
\<close>

definition isWhiteSpace :: "nat \<Rightarrow> bool" where
  "isWhiteSpace c \<longleftrightarrow>
     (9 \<le> c \<and> c \<le> 13) \<or> c = 32 \<or> c = 160 \<or> c = 5760 \<or> (8192 \<le> c \<and> c \<le> 8202) \<or>
     c = 8232 \<or> c = 8233 \<or> c = 8239 \<or> c = 8287 \<or> c = 12288 \<or> c = 65279"

definition trim :: "utf16 \<Rightarrow> utf16" where
  "trim s = rev (dropWhile isWhiteSpace (rev (dropWhile isWhiteSpace s)))"

text \<open>
  One attempt of \<open>/https?:\/\/[^\s]+/\<close> at the start of \<open>s\<close> with a fixed choice
  for the optional \<open>s\<close>: the scheme, then the longest non-empty run of characters
  that are not white space. The result is the match and the text after it.
\<close>

definition url_with :: "utf16 \<Rightarrow> utf16 \<Rightarrow> (utf16 \<times> utf16) option" where
  "url_with scheme s =
     (if prefix scheme s then
        (let rest = drop (length scheme) s;
             body = takeWhile (\<lambda>c. \<not> isWhiteSpace c) rest
         in if body = [] then None
            else Some (scheme @ body, dropWhile (\<lambda>c. \<not> isWhiteSpace c) rest))
      else None)"

text \<open>The greedy \<open>s?\<close> is tried with the \<open>s\<close> first, then without.\<close>

definition url_at :: "utf16 \<Rightarrow> (utf16 \<times> utf16) option" where
  "url_at s =
     (case url_with (js ''https://'') s of
        Some r \<Rightarrow> Some r
      | None \<Rightarrow> url_with (js ''http://'') s)"

lemma url_with_shorter:
  "url_with scheme s = Some (m, rest) \<Longrightarrow> scheme \<noteq> [] \<Longrightarrow> length rest < length s"
proof -
  assume a: "url_with scheme s = Some (m, rest)" and ne: "scheme \<noteq> []"
  have pre: "prefix scheme s"
    using a by (simp add: url_with_def split: if_splits)
  then have "s \<noteq> []"
    using ne by auto
  from a pre have "rest = dropWhile (\<lambda>c. \<not> isWhiteSpace c) (drop (length scheme) s)"
    by (simp add: url_with_def Let_def split: if_splits)
  then have "length rest \<le> length (drop (length scheme) s)"
    using length_dropWhile_le [of "\<lambda>c. \<not> isWhiteSpace c" "drop (length scheme) s"] by blast
  also have "\<dots> < length s"
    using ne \<open>s \<noteq> []\<close> by simp
  finally show ?thesis .
qed

lemma url_at_shorter: "url_at s = Some (m, rest) \<Longrightarrow> length rest < length s"
  by (auto simp: url_at_def js_def split: option.splits dest: url_with_shorter)

text \<open>
  \<open>urlInput.match(/.../g) ?? []\<close>: the matches from left to right; after a match the
  search goes on behind it, after a failed attempt one character further.
\<close>

function matchAll :: "utf16 \<Rightarrow> utf16 list" where
  "matchAll [] = []"
| "matchAll (c # cs) =
     (case url_at (c # cs) of
        Some (m, rest) \<Rightarrow> m # matchAll rest
      | None \<Rightarrow> matchAll cs)"
  by pat_completeness auto
termination
  by (relation "measure length") (auto dest: url_at_shorter)

text \<open>The loop over the matches, with the set \<open>seen\<close> and the array \<open>out\<close>.\<close>

fun dedupe :: "utf16 list \<Rightarrow> utf16 set \<Rightarrow> utf16 list \<Rightarrow> utf16 list" where
  "dedupe [] seen out = out"
| "dedupe (m # ms) seen out =
     (let u = trim m
      in if u \<notin> seen then dedupe ms (insert u seen) (out @ [u]) else dedupe ms seen out)"

definition extractedUrls :: "utf16 \<Rightarrow> utf16 list" where
  "extractedUrls urlInput =
     (if trim urlInput = [] then [] else dedupe (matchAll urlInput) {} [])"

text \<open>
  What the extraction is meant to return, for comparison: a list without its repeated
  elements, each kept where it first occurs; and the shape of one URL.
\<close>

fun first_occurrences :: "'a list \<Rightarrow> 'a list" where
  "first_occurrences [] = []"
| "first_occurrences (x # xs) = x # first_occurrences (filter (\<lambda>y. y \<noteq> x) xs)"

definition url_shaped :: "utf16 \<Rightarrow> bool" where
  "url_shaped m \<longleftrightarrow>
     (\<exists>scheme \<in> {js ''http://'', js ''https://''}.
        prefix scheme m \<and> drop (length scheme) m \<noteq> [] \<and>
        (\<forall>c \<in> set (drop (length scheme) m). \<not> isWhiteSpace c))"

section \<open>Tool status (app/types.ts)\<close>

text \<open>
  \<open>ToolStatus\<close> is the union of four string literals; \<open>ToolStatus_literal\<close> gives
  the literal of each value. \<open>ToolInfo\<close> and \<open>ToolchainStatus\<close> carry it to the
  frontend (the fields \<open>path\<close> and \<open>status\<close> of \<open>ToolInfo\<close> are called \<open>tool_path\<close>
  and \<open>tool_status\<close> here).
\<close>

datatype ToolStatus = Ok | Outdated | Missing | Broken


record ToolInfo =
  tool :: string
  tool_path :: string
  version :: "string option"
  tool_status :: ToolStatus
  is_bundled :: bool
  last_checked :: "string option"

record ToolchainStatus =
  yt_dlp :: "ToolInfo option"
  ffmpeg :: "ToolInfo option"
  ffprobe :: "ToolInfo option"
  overall_status :: ToolStatus

text \<open>
  Modelled from the spec: the closed taxonomy of the Error Classifier, which lives in
  the backend (section 4.6 of the specification).
\<close>

datatype error_kind =
    authRequired | extractorOutdated | geoRestricted | formatUnavailable
  | networkError | diskError | toolMissing | unknown

section \<open>The scheduler (modelled from the specification)\<close>

text \<open>
  Modelled from the spec: the states of the job state machine (section 4.1); the
  scheduler itself is backend code.
\<close>

datatype job_status =
    Queued | Fetching | Ready | Downloading | Postprocessing
  | Stopped | Done | Failed | Canceled

text \<open>
  Modelled from the spec: the scheduler state is the job table, kept in submission
  order (the queue of \<open>queued\<close> jobs is FIFO by submission order), and the
  concurrency limit, a runtime-adjustable configuration value (section 4.2).
\<close>

record scheduler =
  jobs :: "(string \<times> job_status) list"
  concurrency_limit :: nat

text \<open>
  Modelled from the spec: a job is active when its status is downloading or
  postprocessing; the active count is the number of such jobs (section 3).
\<close>

definition is_active :: "job_status \<Rightarrow> bool" where
  "is_active s \<longleftrightarrow> s = Downloading \<or> s = Postprocessing"

definition count_active :: "(string \<times> job_status) list \<Rightarrow> nat" where
  "count_active table = length (filter (\<lambda>(i, s). is_active s) table)"

definition active_count :: "scheduler \<Rightarrow> nat" where
  "active_count sch = count_active (jobs sch)"

text \<open>
  Modelled from the spec: the transitions of the job state machine (section 4.1):
  queued to fetching; fetching to ready; ready to downloading; fetching to downloading,
  which is the last two collapsed into one; downloading to postprocessing; downloading
  or postprocessing to done, to failed, to canceled and to stopped; stopped to
  downloading; failed to queued.
\<close>

fun allowed :: "job_status \<Rightarrow> job_status \<Rightarrow> bool" where
  "allowed Queued Fetching = True"
| "allowed Fetching Ready = True"
| "allowed Ready Downloading = True"
| "allowed Fetching Downloading = True"
| "allowed Downloading Postprocessing = True"
| "allowed Downloading Done = True"
| "allowed Postprocessing Done = True"
| "allowed Downloading Failed = True"
| "allowed Postprocessing Failed = True"
| "allowed Downloading Canceled = True"
| "allowed Postprocessing Canceled = True"
| "allowed Downloading Stopped = True"
| "allowed Postprocessing Stopped = True"
| "allowed Stopped Downloading = True"
| "allowed Failed Queued = True"
| "allowed s s' = False"

text \<open>
  Modelled from the spec: one transition of the state machine for the job with a
  given id (ids are unique, so the first entry with the id is the job): the job moves
  from one of the given statuses to the target status if the state machine allows it,
  and nothing changes otherwise.
\<close>

fun transition :: "string \<Rightarrow> (job_status \<Rightarrow> bool) \<Rightarrow> job_status \<Rightarrow>
    (string \<times> job_status) list \<Rightarrow> (string \<times> job_status) list" where
  "transition i from target [] = []"
| "transition i from target ((j, s) # rest) =
     (if j = i then (if from s \<and> allowed s target then (j, target) # rest else (j, s) # rest)
      else (j, s) # transition i from target rest)"

text \<open>
  Modelled from the spec: admission of a queued job moves the next eligible queued
  job, the first in submission order, from queued to fetching, and only if the active
  count is below the concurrency limit (sections 4.1 and 4.2).
\<close>

fun admit_first :: "(string \<times> job_status) list \<Rightarrow> (string \<times> job_status) list" where
  "admit_first [] = []"
| "admit_first ((j, s) # rest) =
     (if s = Queued then (j, Fetching) # rest else (j, s) # admit_first rest)"

definition admit_next :: "scheduler \<Rightarrow> scheduler" where
  "admit_next sch =
     (if active_count sch < concurrency_limit sch
      then sch\<lparr>jobs := admit_first (jobs sch)\<rparr> else sch)"

text \<open>
  Modelled from the spec: a job enters downloading on admission only: from ready, from
  fetching when the two transitions are collapsed, and from stopped on resume, which
  re-admits the job; each time only if the active count is below the concurrency limit
  (section 4.1).
\<close>

definition admit_to_downloading ::
    "string \<Rightarrow> (job_status \<Rightarrow> bool) \<Rightarrow> scheduler \<Rightarrow> scheduler" where
  "admit_to_downloading i from sch =
     (if active_count sch < concurrency_limit sch
      then sch\<lparr>jobs := transition i from Downloading (jobs sch)\<rparr> else sch)"

text \<open>
  Modelled from the spec: what happens to the scheduler. \<open>submit\<close>, \<open>cancel\<close>,
  \<open>stop\<close>, \<open>retry\<close>, \<open>startAll\<close> and \<open>stopAll\<close> are its contract (section 4.2);
  \<open>probe_succeeded\<close> is the metadata probe of a fetching job succeeding;
  \<open>admit_ready\<close> is the admission of a ready job to the transfer and
  \<open>admit_fetching\<close> the same for a job without a separate metadata step; \<open>resume\<close>
  is the transition from stopped to downloading; \<open>exit_success\<close>, \<open>exit_failure\<close>
  and \<open>enter_postprocessing\<close> are what the Process Orchestrator reports for an active
  job; \<open>set_limit\<close> changes the concurrency limit at run time.
\<close>

datatype sched_op =
    submit string | cancel string | stop string | retry string | startAll | stopAll
  | probe_succeeded string | admit_ready string | admit_fetching string | resume string
  | exit_success string | exit_failure string | enter_postprocessing string
  | set_limit nat

text \<open>
  Modelled from the spec: a slot-freeing event (completion, failure, cancel, stop) for
  an active job moves the job to its new status and admits the next eligible queued
  job if the active count is below the limit; for a job that is not active, or not
  there, nothing happens (section 4.2).
\<close>

definition free_slot :: "string \<Rightarrow> job_status \<Rightarrow> scheduler \<Rightarrow> scheduler" where
  "free_slot i target sch =
     (case map_of (jobs sch) i of
        Some s \<Rightarrow>
          if is_active s
          then admit_next (sch\<lparr>jobs := transition i is_active target (jobs sch)\<rparr>)
          else sch
      | None \<Rightarrow> sch)"

text \<open>
  Modelled from the spec (sections 4.1 and 4.2):
  \<^item> a submitted job is created queued, at the end of the queue, and the next eligible
    queued job is admitted to fetching if the active count is below the limit; a second
    submission of an id changes nothing;
  \<^item> a fetching job becomes ready when its metadata probe succeeds;
  \<^item> a ready job, a fetching job without a separate metadata step, and a stopped job
    that is resumed enter downloading on admission;
  \<^item> completion, failure, cancel and stop of an active job free its slot;
  \<^item> retry re-enqueues a failed job, as a submission does;
  \<^item> the move from downloading to postprocessing keeps the slot;
  \<^item> changing the limit downward does not preempt already active jobs, it only
    throttles future admission; the limit is only stored;
  \<^item> \<open>startAll\<close> admits queued jobs while slots are free and \<open>stopAll\<close> stops every
    active job (the specification names them without saying more).
\<close>

fun sched_step :: "sched_op \<Rightarrow> scheduler \<Rightarrow> scheduler" where
  "sched_step (submit i) sch =
     (if i \<in> fst ` set (jobs sch) then sch
      else admit_next (sch\<lparr>jobs := jobs sch @ [(i, Queued)]\<rparr>))"
| "sched_step (probe_succeeded i) sch =
     sch\<lparr>jobs := transition i (\<lambda>s. s = Fetching) Ready (jobs sch)\<rparr>"
| "sched_step (admit_ready i) sch = admit_to_downloading i (\<lambda>s. s = Ready) sch"
| "sched_step (admit_fetching i) sch = admit_to_downloading i (\<lambda>s. s = Fetching) sch"
| "sched_step (resume i) sch = admit_to_downloading i (\<lambda>s. s = Stopped) sch"
| "sched_step (enter_postprocessing i) sch =
     sch\<lparr>jobs := transition i (\<lambda>s. s = Downloading) Postprocessing (jobs sch)\<rparr>"
| "sched_step (exit_success i) sch = free_slot i Done sch"
| "sched_step (exit_failure i) sch = free_slot i Failed sch"
| "sched_step (cancel i) sch = free_slot i Canceled sch"
| "sched_step (stop i) sch = free_slot i Stopped sch"
| "sched_step (retry i) sch =
     admit_next (sch\<lparr>jobs := transition i (\<lambda>s. s = Failed) Queued (jobs sch)\<rparr>)"
| "sched_step (set_limit n) sch = sch\<lparr>concurrency_limit := n\<rparr>"
| "sched_step startAll sch = (admit_next ^^ (concurrency_limit sch - active_count sch)) sch"
| "sched_step stopAll sch =
     sch\<lparr>jobs := map (\<lambda>(j, s). if is_active s then (j, Stopped) else (j, s)) (jobs sch)\<rparr>"

text \<open>A run of the scheduler, and the scheduler a session starts with.\<close>

fun run :: "scheduler \<Rightarrow> sched_op list \<Rightarrow> scheduler" where
  "run sch [] = sch"
| "run sch (a # as) = run (sched_step a sch) as"

definition initial :: "nat \<Rightarrow> scheduler" where
  "initial n = \<lparr>jobs = [], concurrency_limit = n\<rparr>"

text \<open>
  A run in which the limit is never set below the number of jobs that are active at
  that moment.
\<close>

fun limit_respected :: "scheduler \<Rightarrow> sched_op list \<Rightarrow> bool" where
  "limit_respected sch [] = True"
| "limit_respected sch (a # as) =
     ((case a of set_limit n \<Rightarrow> active_count sch \<le> n | _ \<Rightarrow> True)
      \<and> limit_respected (sched_step a sch) as)"

section \<open>The events of a job and their rate limiting (modelled from the specification)\<close>

text \<open>
  Modelled from the spec: the events one job emits towards the UI layer (section 6):
  queued, started, progress, postprocessing-step, stopped, canceled, completed with the
  final path, failed with error kind, message and actions; and, for the transitions to
  fetching and to ready, the events \<open>MetadataStarted\<close> and \<open>MetadataReady\<close> of
  \<open>DownlinkEventType\<close>. The terminal events are done (completed), failed and canceled
  (section 5).
\<close>

datatype bus_event =
    ev_queued | ev_metadata_started | ev_metadata_ready | ev_started
  | ev_progress progress_data | ev_postprocessing_step string
  | ev_stopped | ev_canceled | ev_completed string
  | ev_failed error_kind string "string list"


text \<open>
  Modelled from the spec: every transition emits one event (section 4.2). The status
  an event announces; a progress event announces none.
\<close>

fun announces :: "bus_event \<Rightarrow> job_status option" where
  "announces ev_queued = Some Queued"
| "announces ev_metadata_started = Some Fetching"
| "announces ev_metadata_ready = Some Ready"
| "announces ev_started = Some Downloading"
| "announces (ev_postprocessing_step step) = Some Postprocessing"
| "announces ev_stopped = Some Stopped"
| "announces ev_canceled = Some Canceled"
| "announces (ev_completed path) = Some Done"
| "announces (ev_failed k msg acts) = Some Failed"
| "announces (ev_progress p) = None"

text \<open>
  Modelled from the spec: what a job in a given status emits when the engine and the
  user produce a sequence of occurrences, each with its time: an occurrence that
  announces a status is emitted, and the job moves there, if the state machine allows
  the transition; a progress report is emitted while the job is active; everything
  else is not an event of the job (sections 4.1, 4.2 and 4.4).
\<close>

fun emit :: "job_status \<Rightarrow> (nat \<times> bus_event) list \<Rightarrow> (nat \<times> bus_event) list" where
  "emit s [] = []"
| "emit s ((t, e) # os) =
     (case announces e of
        None \<Rightarrow> if is_active s then (t, e) # emit s os else emit s os
      | Some s' \<Rightarrow> if allowed s s' then (t, e) # emit s' os else emit s os)"




section \<open>Example inputs\<close>

definition example_item :: QueueItem where
  "example_item =
     \<lparr>id_item = ''job-1'', source_url = ''https://example.com/watch?v=1'',
      title = Some ''First'', uploader = None, thumbnail_url = None,
      duration_seconds = Some 300, status = ''downloading'', phase = Some ''Downloading'',
      progress_percent = Some 42, bytes_downloaded = Some 4200, bytes_total = Some 10000,
      speed_bps = Some 1000, eta_seconds = Some 6, preset_id = ''recommended_best'',
      output_dir = ''/downloads'', final_path = None, error_message = None\<rparr>"

definition example_other :: QueueItem where
  "example_other =
     \<lparr>id_item = ''job-2'', source_url = ''https://example.com/watch?v=2'',
      title = None, uploader = None, thumbnail_url = None,
      duration_seconds = None, status = ''queued'', phase = None,
      progress_percent = None, bytes_downloaded = None, bytes_total = None,
      speed_bps = None, eta_seconds = None, preset_id = ''audio_m4a'',
      output_dir = ''/downloads'', final_path = None, error_message = None\<rparr>"

definition example_state :: hook_state where
  "example_state =
     \<lparr>isReady = True, appVersion = Some ''0.1.0'', ytDlpVersion = None,
      ffmpegVersion = None, queue = [example_item, example_other], history = []\<rparr>"

definition example_progress :: progress_data where
  "example_progress =
     \<lparr>pr_percent = Some 100, pr_bytes_downloaded = None, pr_bytes_total = None,
      pr_speed_bps = None, pr_eta_seconds = None, pr_phase = None\<rparr>"



text \<open>
  A run of the scheduler under the limit 2: five submissions, of which the first two
  are taken through fetching (one with, one without a separate metadata step) into
  downloading before the others arrive.
\<close>

definition example_run :: "sched_op list" where
  "example_run =
     [submit ''a'', admit_fetching ''a'', submit ''b'', probe_succeeded ''b'', admit_ready ''b'',
      submit ''c'', submit ''d'', submit ''e'']"

text \<open>
  The run goes on: the first job completes, the others move on, the limit is raised to
  3, and is set back to 2 when two jobs are active; in the end the nine statuses are
  all there.
\<close>

definition example_run_mid :: "sched_op list" where
  "example_run_mid =
     [exit_success ''a'', enter_postprocessing ''b'', admit_fetching ''c'', stop ''c'',
      exit_failure ''b'', probe_succeeded ''d'', admit_ready ''d'', cancel ''d'',
      set_limit 3, resume ''c'']"

definition example_run_end :: "sched_op list" where
  "example_run_end =
     [admit_fetching ''e'', enter_postprocessing ''e'',
      submit ''f'', admit_fetching ''f'', stop ''f'', submit ''g'', probe_succeeded ''g'',
      submit ''h'', set_limit 2, submit ''k'']"

definition example_run_on :: "sched_op list" where
  "example_run_on = example_run @ example_run_mid @ example_run_end"

section \<open>Properties of the event handler\<close>

lemma queue_handleEvent:
  "queue (handleEvent e st) =
     (case event_id e of None \<Rightarrow> queue st | Some i \<Rightarrow> map_queue e i (queue st))"
  by (cases e) simp_all

lemma length_queue_handleEvent: "length (queue (handleEvent e st)) = length (queue st)"
  by (cases e) (simp_all add: map_queue_def)

lemma nth_map_queue:
  "n < length prev \<Longrightarrow>
     map_queue e i prev ! n = (if id_item (prev ! n) = i then update_item e (prev ! n) else prev ! n)"
  by (simp add: map_queue_def)

subsection \<open>Stopping and canceling\<close>

text \<open>
  Claim C1, as amended. For every queue and every item of it whose id is the id of the
  event: handling \<open>DownloadStopped\<close> sets the item's status to stopped and its phase to
  "Stopped", clears \<open>speed_bps\<close> and \<open>eta_seconds\<close>, and leaves every other field,
  in particular \<open>progress_percent\<close>, \<open>bytes_downloaded\<close> and \<open>bytes_total\<close>, as it
  was; handling \<open>DownloadCanceled\<close> sets the status to canceled and the phase to
  "Canceled" and leaves every other field as it was, so the progress fields keep their
  last known values in the handler. (The cancel action itself calls \<open>refreshQueue\<close>
  afterwards, which replaces the queue by the backend's list.)
\<close>

theorem stopped_and_canceled_items:
  assumes "n < length (queue st)" and "id_item (queue st ! n) = i"
  shows "queue (handleEvent (DownloadStopped i) st) ! n =
           (queue st ! n)\<lparr>status := ''stopped'', phase := Some ''Stopped'',
                            speed_bps := None, eta_seconds := None\<rparr>
       \<and> status (queue (handleEvent (DownloadStopped i) st) ! n) = ''stopped''
       \<and> progress_percent (queue (handleEvent (DownloadStopped i) st) ! n)
           = progress_percent (queue st ! n)
       \<and> bytes_downloaded (queue (handleEvent (DownloadStopped i) st) ! n)
           = bytes_downloaded (queue st ! n)
       \<and> bytes_total (queue (handleEvent (DownloadStopped i) st) ! n)
           = bytes_total (queue st ! n)
       \<and> speed_bps (queue (handleEvent (DownloadStopped i) st) ! n) = None
       \<and> eta_seconds (queue (handleEvent (DownloadStopped i) st) ! n) = None
       \<and> queue (handleEvent (DownloadCanceled i) st) ! n =
           (queue st ! n)\<lparr>status := ''canceled'', phase := Some ''Canceled''\<rparr>
       \<and> progress_percent (queue (handleEvent (DownloadCanceled i) st) ! n)
           = progress_percent (queue st ! n)
       \<and> bytes_downloaded (queue (handleEvent (DownloadCanceled i) st) ! n)
           = bytes_downloaded (queue st ! n)
       \<and> bytes_total (queue (handleEvent (DownloadCanceled i) st) ! n)
           = bytes_total (queue st ! n)"
  using assms by (simp add: nth_map_queue)

theorem stopped_and_canceled_items_witness:
  "0 < length (queue example_state) \<and> id_item (queue example_state ! 0) = ''job-1''
   \<and> status (queue (handleEvent (DownloadStopped ''job-1'') example_state) ! 0) = ''stopped''
   \<and> progress_percent (queue (handleEvent (DownloadStopped ''job-1'') example_state) ! 0) = Some 42
   \<and> speed_bps (queue (handleEvent (DownloadStopped ''job-1'') example_state) ! 0) = None"
  using stopped_and_canceled_items [of 0 example_state "''job-1''"]
  by (simp add: example_state_def example_item_def)

text \<open>
  The claim as first stated has the handler of \<open>DownloadCanceled\<close> reset the progress
  fields. On the example queue the canceled item still shows 42 percent and its byte
  counts after the event.
\<close>

theorem canceled_progress_counterexample:
  "id_item (queue example_state ! 0) = ''job-1''
   \<and> progress_percent (queue example_state ! 0) = Some 42
   \<and> status (queue (handleEvent (DownloadCanceled ''job-1'') example_state) ! 0) = ''canceled''
   \<and> progress_percent (queue (handleEvent (DownloadCanceled ''job-1'') example_state) ! 0) = Some 42
   \<and> bytes_downloaded (queue (handleEvent (DownloadCanceled ''job-1'') example_state) ! 0) = Some 4200
   \<and> bytes_total (queue (handleEvent (DownloadCanceled ''job-1'') example_state) ! 0) = Some 10000"
  by (simp add: example_state_def example_item_def map_queue_def)

subsection \<open>The final path\<close>

lemma update_item_final_path:
  "final_path (update_item e item) \<noteq> final_path item \<Longrightarrow>
     \<exists>i p. e = DownloadCompleted i p \<and> status (update_item e item) = ''done''
       \<and> final_path (update_item e item) = Some p"
  by (cases e) simp_all

lemma update_item_done:
  "status (update_item e item) = ''done'' \<Longrightarrow> status item \<noteq> ''done'' \<Longrightarrow>
     (\<exists>i p. e = DownloadCompleted i p \<and> final_path (update_item e item) = Some p)
   \<or> (\<exists>i s pr. e = DownloadProgress i s pr \<and> normalizeStatus s = ''done''
         \<and> final_path (update_item e item) = final_path item)"
  by (cases e) simp_all

lemma update_item_keeps_iff:
  assumes "final_path item = None \<longleftrightarrow> status item \<noteq> ''done''"
    and "status item = ''done'' \<longrightarrow> status (update_item e item) = ''done''"
    and "\<And>i s pr. e = DownloadProgress i s pr \<Longrightarrow>
           (normalizeStatus s = ''done'') = (status item = ''done'')"
  shows "final_path (update_item e item) = None \<longleftrightarrow> status (update_item e item) \<noteq> ''done''"
  using assms by (cases e) auto

text \<open>
  Claim C3, as amended. No event handler sets \<open>final_path\<close> without also setting the
  status to done: if an event changes the \<open>final_path\<close> of an item, the event is a
  \<open>DownloadCompleted\<close> for that item, and afterwards the status is done and
  \<open>final_path\<close> is the event's path. If an event turns the status of an item into done,
  it is either a \<open>DownloadCompleted\<close> for that item, which sets \<open>final_path\<close>, or a
  \<open>DownloadProgress\<close> for that item whose backend status is done in lower case, which
  leaves \<open>final_path\<close> as it was. So an item whose \<open>final_path\<close> is set if and only
  if its status is done is still such an item after an event, provided the event does
  not take a done item out of the status done and is not a \<open>DownloadProgress\<close> for the
  item whose status disagrees with the item's about being done. (Without the proviso
  it need not be: see the two examples below.)
\<close>

theorem final_path_and_done:
  assumes "n < length (queue st)"
  shows "(final_path (queue (handleEvent e st) ! n) \<noteq> final_path (queue st ! n) \<longrightarrow>
            (\<exists>i p. e = DownloadCompleted i p \<and> id_item (queue st ! n) = i
               \<and> status (queue (handleEvent e st) ! n) = ''done''
               \<and> final_path (queue (handleEvent e st) ! n) = Some p))
       \<and> (status (queue (handleEvent e st) ! n) = ''done'' \<and> status (queue st ! n) \<noteq> ''done'' \<longrightarrow>
            (\<exists>i p. e = DownloadCompleted i p \<and> id_item (queue st ! n) = i
               \<and> final_path (queue (handleEvent e st) ! n) = Some p)
          \<or> (\<exists>i s pr. e = DownloadProgress i s pr \<and> id_item (queue st ! n) = i
               \<and> normalizeStatus s = ''done''
               \<and> final_path (queue (handleEvent e st) ! n) = final_path (queue st ! n)))
       \<and> ((final_path (queue st ! n) = None \<longleftrightarrow> status (queue st ! n) \<noteq> ''done'')
          \<and> (status (queue st ! n) = ''done'' \<longrightarrow> status (queue (handleEvent e st) ! n) = ''done'')
          \<and> (\<forall>s pr. e = DownloadProgress (id_item (queue st ! n)) s pr \<longrightarrow>
                (normalizeStatus s = ''done'') = (status (queue st ! n) = ''done''))
          \<longrightarrow> (final_path (queue (handleEvent e st) ! n) = None
                 \<longleftrightarrow> status (queue (handleEvent e st) ! n) \<noteq> ''done''))"
proof (cases "event_id e")
  case None
  then have "queue (handleEvent e st) = queue st"
    by (simp add: queue_handleEvent)
  then show ?thesis by simp
next
  case (Some i)
  show ?thesis
  proof (cases "id_item (queue st ! n) = i")
    case False
    then have "queue (handleEvent e st) ! n = queue st ! n"
      using assms Some by (simp add: queue_handleEvent nth_map_queue)
    then show ?thesis by simp
  next
    case True
    then have eq: "queue (handleEvent e st) ! n = update_item e (queue st ! n)"
      using assms Some by (simp add: queue_handleEvent nth_map_queue)
    have id: "\<And>j p. e = DownloadCompleted j p \<Longrightarrow> j = i"
      and id': "\<And>j s pr. e = DownloadProgress j s pr \<Longrightarrow> j = i"
      using Some by auto
    have 1: "final_path (update_item e (queue st ! n)) \<noteq> final_path (queue st ! n) \<longrightarrow>
            (\<exists>i p. e = DownloadCompleted i p \<and> id_item (queue st ! n) = i
               \<and> status (update_item e (queue st ! n)) = ''done''
               \<and> final_path (update_item e (queue st ! n)) = Some p)"
      using update_item_final_path [of e "queue st ! n"] True id by blast
    have 2: "status (update_item e (queue st ! n)) = ''done'' \<and> status (queue st ! n) \<noteq> ''done'' \<longrightarrow>
            (\<exists>i p. e = DownloadCompleted i p \<and> id_item (queue st ! n) = i
               \<and> final_path (update_item e (queue st ! n)) = Some p)
          \<or> (\<exists>i s pr. e = DownloadProgress i s pr \<and> id_item (queue st ! n) = i
               \<and> normalizeStatus s = ''done''
               \<and> final_path (update_item e (queue st ! n)) = final_path (queue st ! n))"
      using update_item_done [of e "queue st ! n"] True id id' by blast
    have 3: "(final_path (queue st ! n) = None \<longleftrightarrow> status (queue st ! n) \<noteq> ''done'')
          \<and> (status (queue st ! n) = ''done'' \<longrightarrow> status (update_item e (queue st ! n)) = ''done'')
          \<and> (\<forall>s pr. e = DownloadProgress (id_item (queue st ! n)) s pr \<longrightarrow>
                (normalizeStatus s = ''done'') = (status (queue st ! n) = ''done''))
          \<longrightarrow> (final_path (update_item e (queue st ! n)) = None
                 \<longleftrightarrow> status (update_item e (queue st ! n)) \<noteq> ''done'')"
    proof
      assume h: "(final_path (queue st ! n) = None \<longleftrightarrow> status (queue st ! n) \<noteq> ''done'')
          \<and> (status (queue st ! n) = ''done'' \<longrightarrow> status (update_item e (queue st ! n)) = ''done'')
          \<and> (\<forall>s pr. e = DownloadProgress (id_item (queue st ! n)) s pr \<longrightarrow>
                (normalizeStatus s = ''done'') = (status (queue st ! n) = ''done''))"
      then have "\<And>j s pr. e = DownloadProgress j s pr \<Longrightarrow>
           (normalizeStatus s = ''done'') = (status (queue st ! n) = ''done'')"
        using id' True by blast
      then show "final_path (update_item e (queue st ! n)) = None
                 \<longleftrightarrow> status (update_item e (queue st ! n)) \<noteq> ''done''"
        using h by (intro update_item_keeps_iff) blast+
    qed
    show ?thesis
      unfolding eq using 1 2 3 by blast
  qed
qed

theorem final_path_and_done_witness:
  "0 < length (queue example_state)
   \<and> final_path (queue (handleEvent (DownloadCompleted ''job-1'' ''/downloads/First.mp4'')
         example_state) ! 0) \<noteq> final_path (queue example_state ! 0)
   \<and> final_path (queue example_state ! 0) = None
   \<and> status (queue example_state ! 0) \<noteq> ''done''
   \<and> status (queue (handleEvent (DownloadCompleted ''job-1'' ''/downloads/First.mp4'')
         example_state) ! 0) = ''done''
   \<and> final_path (queue (handleEvent (DownloadCompleted ''job-1'' ''/downloads/First.mp4'')
         example_state) ! 0) = Some ''/downloads/First.mp4''"
  using final_path_and_done [of 0 example_state "DownloadCompleted ''job-1'' ''/downloads/First.mp4''"]
  by (simp add: example_state_def example_item_def map_queue_def)

text \<open>
  The claim as first stated fails in both directions. A progress event whose backend
  status is \<open>DONE\<close> makes the example item done while its \<open>final_path\<close> stays null; and
  a completed item that receives \<open>DownloadStarted\<close> is downloading again while its
  \<open>final_path\<close> stays set.
\<close>

theorem final_path_iff_done_counterexample:
  "status (queue example_state ! 0) = ''downloading''
   \<and> final_path (queue example_state ! 0) = None
   \<and> status (queue (handleEvent (DownloadProgress ''job-1'' ''DONE'' example_progress)
         example_state) ! 0) = ''done''
   \<and> final_path (queue (handleEvent (DownloadProgress ''job-1'' ''DONE'' example_progress)
         example_state) ! 0) = None
   \<and> status (queue (handleEvent (DownloadStarted ''job-1'')
         (handleEvent (DownloadCompleted ''job-1'' ''/downloads/First.mp4'') example_state)) ! 0)
       = ''downloading''
   \<and> final_path (queue (handleEvent (DownloadStarted ''job-1'')
         (handleEvent (DownloadCompleted ''job-1'' ''/downloads/First.mp4'') example_state)) ! 0)
       = Some ''/downloads/First.mp4''"
  by (simp add: example_state_def example_item_def map_queue_def normalizeStatus_def
      toLowerCase_char_def)

subsection \<open>Failure and completion\<close>

text \<open>
  Claim C5, as amended. A \<open>DownloadFailed\<close> event carries the classifier's error
  code, a user message and a list of remediation actions, which may be empty. For every
  such event and every item of the queue whose id is the id of the event, the handler
  sets the status to failed and the phase to "Failed" and stores exactly the event's
  \<open>user_message\<close> as \<open>error_message\<close>, every other field as it was. The error code
  and the actions are not kept: the state after the event is the same whatever they
  are, so what the queue shows of a failure is its message only.
\<close>

theorem failed_item_message:
  assumes "n < length (queue st)" and "id_item (queue st ! n) = i"
  shows "queue (handleEvent (DownloadFailed i code msg acts) st) ! n =
           (queue st ! n)\<lparr>status := ''failed'', phase := Some ''Failed'',
                            error_message := Some msg\<rparr>
       \<and> status (queue (handleEvent (DownloadFailed i code msg acts) st) ! n) = ''failed''
       \<and> error_message (queue (handleEvent (DownloadFailed i code msg acts) st) ! n) = Some msg
       \<and> handleEvent (DownloadFailed i code' msg acts') st
           = handleEvent (DownloadFailed i code msg acts) st"
  using assms by (simp add: nth_map_queue map_queue_def)

theorem failed_item_message_witness:
  "0 < length (queue example_state) \<and> id_item (queue example_state ! 0) = ''job-1''
   \<and> status (queue (handleEvent (DownloadFailed ''job-1'' ''authRequired''
         ''Sign in to download this video.'' []) example_state) ! 0) = ''failed''
   \<and> error_message (queue (handleEvent (DownloadFailed ''job-1'' ''authRequired''
         ''Sign in to download this video.'' []) example_state) ! 0)
       = Some ''Sign in to download this video.''"
  using failed_item_message [of 0 example_state "''job-1''" "''authRequired''"
      "''Sign in to download this video.''" "[]"]
  by (simp add: example_state_def example_item_def)

text \<open>
  The claim as first stated has the failure that reaches the user carry the error code
  and the remediation actions. Two failures of the example item with the same message,
  one with the code \<open>authRequired\<close> and an action, one with the code \<open>unknown\<close> and
  no action, leave the same state: the failed item holds the message and neither the
  code nor the action.
\<close>

theorem failed_code_and_actions_counterexample:
  "handleEvent (DownloadFailed ''job-1'' ''authRequired'' ''Sign in to download this video.''
       [\<lparr>action_kind = ''importCookies'', action_label = ''Import cookies''\<rparr>]) example_state
     = handleEvent (DownloadFailed ''job-1'' ''unknown'' ''Sign in to download this video.'' [])
         example_state
   \<and> queue (handleEvent (DownloadFailed ''job-1'' ''authRequired''
         ''Sign in to download this video.''
         [\<lparr>action_kind = ''importCookies'', action_label = ''Import cookies''\<rparr>])
         example_state) ! 0
     = example_item\<lparr>status := ''failed'', phase := Some ''Failed'',
         error_message := Some ''Sign in to download this video.''\<rparr>"
  by (simp add: example_state_def map_queue_def example_item_def)

text \<open>
  Claim C6. For every queue and every item of it whose id is the id of the event,
  handling \<open>DownloadCompleted\<close>, which carries the final path, leaves the item with the
  status done, \<open>progress_percent\<close> 100 and \<open>final_path\<close> equal to the event's
  \<open>final_path\<close> (and the phase "Completed", every other field as it was).
\<close>

theorem completed_item:
  assumes "n < length (queue st)" and "id_item (queue st ! n) = i"
  shows "status (queue (handleEvent (DownloadCompleted i p) st) ! n) = ''done''
       \<and> progress_percent (queue (handleEvent (DownloadCompleted i p) st) ! n) = Some 100
       \<and> final_path (queue (handleEvent (DownloadCompleted i p) st) ! n) = Some p
       \<and> queue (handleEvent (DownloadCompleted i p) st) ! n =
           (queue st ! n)\<lparr>status := ''done'', progress_percent := Some 100,
                            final_path := Some p, phase := Some ''Completed''\<rparr>"
  using assms by (simp add: nth_map_queue)

theorem completed_item_witness:
  "0 < length (queue example_state) \<and> id_item (queue example_state ! 0) = ''job-1''
   \<and> status (queue (handleEvent (DownloadCompleted ''job-1'' ''/downloads/First.mp4'')
         example_state) ! 0) = ''done''
   \<and> progress_percent (queue (handleEvent (DownloadCompleted ''job-1'' ''/downloads/First.mp4'')
         example_state) ! 0) = Some 100
   \<and> final_path (queue (handleEvent (DownloadCompleted ''job-1'' ''/downloads/First.mp4'')
         example_state) ! 0) = Some ''/downloads/First.mp4''"
  using completed_item [of 0 example_state "''job-1''" "''/downloads/First.mp4''"]
  by (simp add: example_state_def example_item_def)

subsection \<open>Resume\<close>

text \<open>
  Claim C7. The Resume button of a stopped row invokes the start operation on the id
  of the existing item, the same operation the Start button of a queued row invokes:
  \<open>start_download\<close> with that id, followed by the refresh of the queue, and no command
  that adds or expands anything. The \<open>DownloadStarted\<close> event that follows sets the
  status of the items with that id to downloading in place: the queue keeps its length
  and its ids, the item keeps every field but status and phase, and the other items
  are as they were.
\<close>

theorem resume_restarts_in_place:
  assumes "isStopped item"
  shows "click isTauri item ResumeButton = Some (startDownload isTauri (id_item item))
       \<and> (isQueued item' \<longrightarrow>
            click isTauri item' StartButton = Some (startDownload isTauri (id_item item')))
       \<and> startDownload isTauri (id_item item)
           = start_download (id_item item) # (if isTauri then [get_queue] else [])
       \<and> length (queue (handleEvent (DownloadStarted i) st)) = length (queue st)
       \<and> map id_item (queue (handleEvent (DownloadStarted i) st)) = map id_item (queue st)
       \<and> (\<forall>n < length (queue st).
            queue (handleEvent (DownloadStarted i) st) ! n =
              (if id_item (queue st ! n) = i
               then (queue st ! n)\<lparr>status := ''downloading'', phase := Some starting_label\<rparr>
               else queue st ! n))"
proof -
  have 1: "click isTauri item ResumeButton = Some (startDownload isTauri (id_item item))"
    using assms
    by (simp add: click_def QueueItemComponent_def isStopped_def isQueued_def isActive_def)
  have 2: "isQueued item' \<longrightarrow>
      click isTauri item' StartButton = Some (startDownload isTauri (id_item item'))"
    by (simp add: click_def QueueItemComponent_def)
  have 3: "startDownload isTauri (id_item item)
           = start_download (id_item item) # (if isTauri then [get_queue] else [])"
    by (simp add: startDownload_def refreshQueue_calls_def)
  have 4: "map id_item (queue (handleEvent (DownloadStarted i) st)) = map id_item (queue st)"
    by (simp add: map_queue_def)
  have 5: "\<forall>n < length (queue st).
            queue (handleEvent (DownloadStarted i) st) ! n =
              (if id_item (queue st ! n) = i
               then (queue st ! n)\<lparr>status := ''downloading'', phase := Some starting_label\<rparr>
               else queue st ! n)"
    by (simp add: nth_map_queue)
  show ?thesis
    using 1 2 3 4 5 length_queue_handleEvent [of "DownloadStarted i" st] by blast
qed

theorem resume_restarts_in_place_witness:
  "isStopped (example_item\<lparr>status := ''stopped''\<rparr>)
   \<and> click True (example_item\<lparr>status := ''stopped''\<rparr>) ResumeButton
       = Some [start_download ''job-1'', get_queue]
   \<and> isQueued example_other
   \<and> click True example_other StartButton = Some [start_download ''job-2'', get_queue]
   \<and> map status (queue (handleEvent (DownloadStarted ''job-1'')
         (example_state\<lparr>queue := [example_item\<lparr>status := ''stopped''\<rparr>, example_other]\<rparr>)))
       = [''downloading'', ''queued'']"
  using resume_restarts_in_place [of "example_item\<lparr>status := ''stopped''\<rparr>" True example_other
     "''job-1''" "example_state\<lparr>queue := [example_item\<lparr>status := ''stopped''\<rparr>, example_other]\<rparr>"]
  by (simp add: isStopped_def isQueued_def example_item_def example_other_def example_state_def
      startDownload_def refreshQueue_calls_def map_queue_def)

subsection \<open>The frame of a download event\<close>

text \<open>
  Claim C10. For every download event (progress, started, stopped, canceled, completed,
  failed, postprocessing, metadata: the events that carry an id) and every item of the
  queue whose id differs from the id of the event, handling the event leaves the item
  as it was, at its place in a queue of the same length; and an event whose id is the
  id of no item leaves the queue, and the whole state, as it was.
\<close>

theorem other_items_unchanged:
  assumes "event_id e = Some i"
  shows "length (queue (handleEvent e st)) = length (queue st)
       \<and> (\<forall>n < length (queue st). id_item (queue st ! n) \<noteq> i \<longrightarrow>
             queue (handleEvent e st) ! n = queue st ! n)
       \<and> ((\<forall>item \<in> set (queue st). id_item item \<noteq> i) \<longrightarrow> handleEvent e st = st)"
proof -
  have q: "queue (handleEvent e st) = map_queue e i (queue st)"
    using assms by (simp add: queue_handleEvent)
  have rest: "handleEvent e st = st\<lparr>queue := queue (handleEvent e st)\<rparr>"
    using assms by (cases e) simp_all
  have "(\<forall>item \<in> set (queue st). id_item item \<noteq> i) \<longrightarrow> map_queue e i (queue st) = queue st"
    by (simp add: map_queue_def map_idI)
  then have "(\<forall>item \<in> set (queue st). id_item item \<noteq> i) \<longrightarrow> handleEvent e st = st"
    using rest q by simp
  moreover have "length (queue (handleEvent e st)) = length (queue st)"
    by (rule length_queue_handleEvent)
  moreover have "\<forall>n < length (queue st). id_item (queue st ! n) \<noteq> i \<longrightarrow>
      queue (handleEvent e st) ! n = queue st ! n"
    unfolding q by (simp add: nth_map_queue)
  ultimately show ?thesis by blast
qed

theorem other_items_unchanged_witness:
  "event_id (DownloadStopped ''job-1'') = Some ''job-1''
   \<and> 1 < length (queue example_state) \<and> id_item (queue example_state ! 1) \<noteq> ''job-1''
   \<and> queue (handleEvent (DownloadStopped ''job-1'') example_state) ! 1 = example_other
   \<and> event_id (DownloadCanceled ''job-9'') = Some ''job-9''
   \<and> map id_item (queue example_state) = [''job-1'', ''job-2'']
   \<and> handleEvent (DownloadCanceled ''job-9'') example_state = example_state"
  using other_items_unchanged [of "DownloadStopped ''job-1''" "''job-1''" example_state]
    other_items_unchanged [of "DownloadCanceled ''job-9''" "''job-9''" example_state]
  by (simp add: example_state_def example_item_def example_other_def)

section \<open>Properties of the URL extraction\<close>

lemma dedupe_eq:
  "dedupe ms seen out = out @ first_occurrences (filter (\<lambda>u. u \<notin> seen) (map trim ms))"
proof (induction ms arbitrary: seen out)
  case Nil
  then show ?case by simp
next
  case (Cons m ms)
  have f: "filter (\<lambda>y. y \<noteq> trim m) (filter (\<lambda>u. u \<notin> seen) (map trim ms))
         = filter (\<lambda>u. u \<notin> insert (trim m) seen) (map trim ms)"
    by (simp add: conj_commute)
  show ?case
    using Cons.IH f by (simp add: Let_def)
qed

lemma set_first_occurrences: "set (first_occurrences xs) = set xs"
  by (induction xs rule: first_occurrences.induct) auto

lemma distinct_first_occurrences: "distinct (first_occurrences xs)"
  by (induction xs rule: first_occurrences.induct) (auto simp: set_first_occurrences)

lemma url_with_Some:
  assumes "url_with scheme s = Some (m, rest)"
  shows "s = m @ rest \<and> prefix scheme m \<and> drop (length scheme) m \<noteq> [] \<and>
         (\<forall>c \<in> set (drop (length scheme) m). \<not> isWhiteSpace c)"
proof -
  let ?P = "\<lambda>c. \<not> isWhiteSpace c"
  let ?r = "drop (length scheme) s"
  from assms have pre: "prefix scheme s" and ne: "takeWhile ?P ?r \<noteq> []"
    and m: "m = scheme @ takeWhile ?P ?r" and rest: "rest = dropWhile ?P ?r"
    by (auto simp: url_with_def Let_def split: if_splits)
  from pre have s: "s = scheme @ ?r"
    by (metis append_eq_conv_conj prefixE)
  have "s = m @ rest"
    using s m rest by (metis append.assoc takeWhile_dropWhile_id)
  moreover have "drop (length scheme) m = takeWhile ?P ?r"
    using m by simp
  moreover have "\<forall>c \<in> set (takeWhile ?P ?r). ?P c"
    by (auto dest: set_takeWhileD)
  ultimately show ?thesis
    using m ne by simp
qed

lemma url_at_Some:
  assumes "url_at s = Some (m, rest)"
  shows "s = m @ rest \<and> url_shaped m"
proof (cases "url_with (js ''https://'') s")
  case None
  then have "url_with (js ''http://'') s = Some (m, rest)"
    using assms by (simp add: url_at_def)
  from url_with_Some [OF this] show ?thesis
    unfolding url_shaped_def by blast
next
  case (Some r)
  then have "url_with (js ''https://'') s = Some (m, rest)"
    using assms by (simp add: url_at_def)
  from url_with_Some [OF this] show ?thesis
    unfolding url_shaped_def by blast
qed

lemma matchAll_sound: "m \<in> set (matchAll s) \<Longrightarrow> url_shaped m \<and> sublist m s"
proof (induction s rule: matchAll.induct)
  case 1
  then show ?case by simp
next
  case (2 c cs)
  show ?case
  proof (cases "url_at (c # cs)")
    case None
    with 2 have "url_shaped m \<and> sublist m cs" by simp
    then show ?thesis by (simp add: sublist_Cons_right)
  next
    case (Some r)
    obtain m' rest where r: "r = (m', rest)" by (cases r)
    from Some r have at: "c # cs = m' @ rest" and sh: "url_shaped m'"
      using url_at_Some by blast+
    from "2.prems" Some r have "m = m' \<or> m \<in> set (matchAll rest)" by simp
    then show ?thesis
    proof
      assume "m = m'"
      then show ?thesis using at sh by simp
    next
      assume "m \<in> set (matchAll rest)"
      then have "url_shaped m \<and> sublist m rest"
        using "2.IH"(2) [OF Some [unfolded r] refl] by simp
      then show ?thesis using at by (simp add: sublist_append)
    qed
  qed
qed

lemma not_ws_scheme: "c \<in> set (js ''http://'') \<union> set (js ''https://'') \<Longrightarrow> \<not> isWhiteSpace c"
  by (auto simp: js_def isWhiteSpace_def)

lemma url_shaped_no_ws:
  assumes "url_shaped m"
  shows "m \<noteq> [] \<and> (\<forall>c \<in> set m. \<not> isWhiteSpace c)
       \<and> (prefix (js ''http://'') m \<or> prefix (js ''https://'') m)"
proof -
  from assms obtain scheme where sc: "scheme = js ''http://'' \<or> scheme = js ''https://''"
    and pre: "prefix scheme m" and body: "\<forall>c \<in> set (drop (length scheme) m). \<not> isWhiteSpace c"
    and ne: "drop (length scheme) m \<noteq> []"
    unfolding url_shaped_def by blast
  from pre have m: "m = scheme @ drop (length scheme) m"
    by (metis append_eq_conv_conj prefixE)
  have "\<forall>c \<in> set scheme. \<not> isWhiteSpace c"
    using sc not_ws_scheme by blast
  then have "\<forall>c \<in> set m. \<not> isWhiteSpace c"
    using body m by (metis Un_iff set_append)
  moreover have "m \<noteq> []" using ne by auto
  ultimately show ?thesis using sc pre by blast
qed

lemma dropWhile_none: "\<forall>c \<in> set xs. \<not> P c \<Longrightarrow> dropWhile P xs = xs"
  by (cases xs) simp_all

lemma trim_id:
  assumes "\<forall>c \<in> set m. \<not> isWhiteSpace c"
  shows "trim m = m"
proof -
  have "dropWhile isWhiteSpace m = m"
    using assms by (rule dropWhile_none)
  moreover have "dropWhile isWhiteSpace (rev m) = rev m"
    using assms by (intro dropWhile_none) simp
  ultimately show ?thesis by (simp add: trim_def)
qed

lemma trim_Nil_iff: "trim s = [] \<longleftrightarrow> (\<forall>c \<in> set s. isWhiteSpace c)"
proof
  assume "trim s = []"
  then have all: "\<forall>c \<in> set (dropWhile isWhiteSpace s). isWhiteSpace c"
    by (simp add: trim_def)
  have "dropWhile isWhiteSpace s = []"
  proof (rule ccontr)
    assume ne: "dropWhile isWhiteSpace s \<noteq> []"
    then have "\<not> isWhiteSpace (hd (dropWhile isWhiteSpace s))"
      by (rule hd_dropWhile)
    then show False using all ne by simp
  qed
  then show "\<forall>c \<in> set s. isWhiteSpace c" by simp
next
  assume "\<forall>c \<in> set s. isWhiteSpace c"
  then have d: "dropWhile isWhiteSpace s = []" by simp
  show "trim s = []" unfolding trim_def d by simp
qed

lemma matchAll_blank:
  assumes "\<forall>c \<in> set s. isWhiteSpace c"
  shows "matchAll s = []"
proof (rule ccontr)
  assume "matchAll s \<noteq> []"
  then obtain m where m: "m \<in> set (matchAll s)"
    by (cases "matchAll s") auto
  then have "url_shaped m" and sub: "sublist m s"
    using matchAll_sound by blast+
  then obtain c where "c \<in> set m" and "\<not> isWhiteSpace c"
    using url_shaped_no_ws by (metis last_in_set)
  moreover have "set m \<subseteq> set s"
    using sub by (rule set_mono_sublist)
  ultimately show False using assms by blast
qed

lemma extractedUrls_eq: "extractedUrls s = first_occurrences (matchAll s)"
proof -
  have triv: "map trim (matchAll s) = matchAll s"
    by (rule map_idI) (use matchAll_sound url_shaped_no_ws trim_id in blast)
  have "dedupe (matchAll s) {} [] = first_occurrences (matchAll s)"
    by (simp add: dedupe_eq triv)
  moreover have "trim s = [] \<Longrightarrow> matchAll s = []"
    by (simp add: trim_Nil_iff matchAll_blank)
  ultimately show ?thesis
    by (auto simp: extractedUrls_def)
qed

text \<open>
  Claim C9. For every input text, the URL extraction returns the matches of the
  pattern for http and https URLs in the text with exact duplicates removed, each kept
  at its first occurrence, in the order of the text; every returned element is
  a piece of the text that starts with \<open>http://\<close> or \<open>https://\<close>, followed by at
  least one character and by no white space; and the result is the empty list when the
  text is empty or has only white space.
\<close>

theorem extractedUrls_result:
  "extractedUrls s = first_occurrences (matchAll s)
   \<and> distinct (extractedUrls s)
   \<and> set (extractedUrls s) = set (matchAll s)
   \<and> (\<forall>u \<in> set (extractedUrls s).
         (prefix (js ''http://'') u \<or> prefix (js ''https://'') u) \<and> url_shaped u \<and> sublist u s)
   \<and> ((\<forall>c \<in> set s. isWhiteSpace c) \<longrightarrow> extractedUrls s = [])"
proof -
  have 1: "extractedUrls s = first_occurrences (matchAll s)"
    by (rule extractedUrls_eq)
  have 2: "distinct (extractedUrls s)"
    by (simp add: 1 distinct_first_occurrences)
  have 3: "set (extractedUrls s) = set (matchAll s)"
    by (simp add: 1 set_first_occurrences)
  have 4: "\<forall>u \<in> set (extractedUrls s).
         (prefix (js ''http://'') u \<or> prefix (js ''https://'') u) \<and> url_shaped u \<and> sublist u s"
    unfolding 3 using matchAll_sound url_shaped_no_ws by blast
  have 5: "(\<forall>c \<in> set s. isWhiteSpace c) \<longrightarrow> extractedUrls s = []"
    by (simp add: 1 matchAll_blank)
  show ?thesis using 1 2 3 4 5 by blast
qed

theorem extractedUrls_result_witness:
  "extractedUrls (js ''a https://a.com http://b https://a.com'') = [js ''https://a.com'', js ''http://b'']
   \<and> matchAll (js ''a https://a.com http://b https://a.com'')
        = [js ''https://a.com'', js ''http://b'', js ''https://a.com'']
   \<and> extractedUrls (js ''  '') = []"
  using extractedUrls_result [of "js ''a https://a.com http://b https://a.com''"]
    extractedUrls_result [of "js ''  ''"]
  by (simp add: url_at_def url_with_def js_def isWhiteSpace_def Let_def)


section \<open>Properties of the scheduler\<close>

lemma count_active_simps [simp]:
  "count_active [] = 0"
  "count_active ((j, s) # table) = (if is_active s then Suc (count_active table) else count_active table)"
  "count_active (table @ table') = count_active table + count_active table'"
  by (simp_all add: count_active_def)

lemma count_transition_le_Suc:
  "count_active (transition i from target table) \<le> Suc (count_active table)"
  by (induction table) auto

lemma count_transition_inactive:
  "\<not> is_active target \<Longrightarrow> count_active (transition i from target table) \<le> count_active table"
  by (induction table) auto

lemma count_transition_active:
  "is_active target \<Longrightarrow> (\<And>s. from s \<Longrightarrow> is_active s) \<Longrightarrow>
     count_active (transition i from target table) = count_active table"
  by (induction table) auto

lemma count_admit_first: "count_active (admit_first table) = count_active table"
  by (induction table) (auto simp: is_active_def)

lemma count_stop_all:
  "count_active (map (\<lambda>(j, s). if is_active s then (j, Stopped) else (j, s)) table) = 0"
  by (induction table) (auto simp: is_active_def)

lemma limit_admit_next [simp]: "concurrency_limit (admit_next sch) = concurrency_limit sch"
  by (simp add: admit_next_def)

lemma active_admit_next [simp]: "active_count (admit_next sch) = active_count sch"
  by (simp add: admit_next_def active_count_def count_admit_first)

lemma limit_admit_pow [simp]: "concurrency_limit ((admit_next ^^ k) sch) = concurrency_limit sch"
  by (induction k) simp_all

lemma active_admit_pow [simp]: "active_count ((admit_next ^^ k) sch) = active_count sch"
  by (induction k) simp_all

lemma limit_free_slot [simp]: "concurrency_limit (free_slot i target sch) = concurrency_limit sch"
  by (simp add: free_slot_def split: option.splits)

lemma active_free_slot:
  assumes "\<not> is_active target"
  shows "active_count (free_slot i target sch) \<le> active_count sch"
proof (cases "\<exists>s. map_of (jobs sch) i = Some s \<and> is_active s")
  case True
  then have "free_slot i target sch
      = admit_next (sch\<lparr>jobs := transition i is_active target (jobs sch)\<rparr>)"
    by (auto simp: free_slot_def)
  then have "active_count (free_slot i target sch)
      = active_count (sch\<lparr>jobs := transition i is_active target (jobs sch)\<rparr>)"
    by simp
  also have "\<dots> = count_active (transition i is_active target (jobs sch))"
    by (simp add: active_count_def)
  also have "\<dots> \<le> count_active (jobs sch)"
    using assms by (rule count_transition_inactive)
  finally show ?thesis by (simp add: active_count_def)
next
  case False
  then have "free_slot i target sch = sch"
    by (auto simp: free_slot_def split: option.splits)
  then show ?thesis by simp
qed

lemma limit_admit_to_downloading [simp]:
  "concurrency_limit (admit_to_downloading i from sch) = concurrency_limit sch"
  by (simp add: admit_to_downloading_def)

lemma active_admit_to_downloading:
  "active_count (admit_to_downloading i from sch)
     \<le> max (active_count sch) (concurrency_limit sch)"
  using count_transition_le_Suc [of i "from" Downloading "jobs sch"]
  by (auto simp: admit_to_downloading_def active_count_def)

lemma sched_step_no_overshoot:
  "active_count (sched_step a sch)
     \<le> max (active_count sch) (concurrency_limit (sched_step a sch))"
proof (cases a)
  case (submit i)
  show ?thesis
    by (simp add: submit) (simp add: active_count_def is_active_def)
next
  case (cancel i)
  show ?thesis
    using active_free_slot [of Canceled i sch] by (simp add: cancel is_active_def)
next
  case (stop i)
  show ?thesis
    using active_free_slot [of Stopped i sch] by (simp add: stop is_active_def)
next
  case (retry i)
  show ?thesis
    using count_transition_inactive [of Queued i "\<lambda>s. s = Failed" "jobs sch"]
    by (simp add: retry) (simp add: active_count_def is_active_def)
next
  case startAll
  show ?thesis by (simp add: startAll)
next
  case stopAll
  show ?thesis
    by (simp add: stopAll active_count_def count_stop_all)
next
  case (probe_succeeded i)
  show ?thesis
    using count_transition_inactive [of Ready i "\<lambda>s. s = Fetching" "jobs sch"]
    by (simp add: probe_succeeded active_count_def is_active_def)
next
  case (admit_ready i)
  show ?thesis
    using active_admit_to_downloading [of i "\<lambda>s. s = Ready" sch] by (simp add: admit_ready)
next
  case (admit_fetching i)
  show ?thesis
    using active_admit_to_downloading [of i "\<lambda>s. s = Fetching" sch] by (simp add: admit_fetching)
next
  case (resume i)
  show ?thesis
    using active_admit_to_downloading [of i "\<lambda>s. s = Stopped" sch] by (simp add: resume)
next
  case (exit_success i)
  show ?thesis
    using active_free_slot [of Done i sch] by (simp add: exit_success is_active_def)
next
  case (exit_failure i)
  show ?thesis
    using active_free_slot [of Failed i sch] by (simp add: exit_failure is_active_def)
next
  case (enter_postprocessing i)
  show ?thesis
    using count_transition_active [of Postprocessing "\<lambda>s. s = Downloading" i "jobs sch"]
    by (simp add: enter_postprocessing active_count_def is_active_def)
next
  case (set_limit n)
  show ?thesis
    by (simp add: set_limit active_count_def)
qed

lemma sched_step_invariant:
  assumes "active_count sch \<le> concurrency_limit sch"
    and "case a of set_limit n \<Rightarrow> active_count sch \<le> n | _ \<Rightarrow> True"
  shows "active_count (sched_step a sch) \<le> concurrency_limit (sched_step a sch)"
proof (cases "\<exists>n. a = set_limit n")
  case True
  then show ?thesis using assms by (auto simp: active_count_def)
next
  case False
  then have "concurrency_limit (sched_step a sch) = concurrency_limit sch"
    by (cases a) simp_all
  then show ?thesis
    using sched_step_no_overshoot [of a sch] assms(1) by simp
qed

lemma run_invariant:
  "active_count sch \<le> concurrency_limit sch \<Longrightarrow> limit_respected sch ops \<Longrightarrow>
     active_count (run sch ops) \<le> concurrency_limit (run sch ops)"
proof (induction ops arbitrary: sch)
  case Nil
  then show ?case by simp
next
  case (Cons a ops)
  from Cons.prems have "active_count (sched_step a sch) \<le> concurrency_limit (sched_step a sch)"
    by (intro sched_step_invariant) simp_all
  moreover from Cons.prems have "limit_respected (sched_step a sch) ops" by simp
  ultimately show ?case using Cons.IH by simp
qed

lemma run_append: "run sch (xs @ ys) = run (run sch xs) ys"
  by (induction xs arbitrary: sch) simp_all

lemma limit_respected_append:
  "limit_respected sch (xs @ ys) \<longleftrightarrow> limit_respected sch xs \<and> limit_respected (run sch xs) ys"
  by (induction xs arbitrary: sch) simp_all

lemmas sched_eval = initial_def admit_next_def free_slot_def
      admit_to_downloading_def active_count_def count_active_def is_active_def

lemma example_run_result:
  "run (initial 2) example_run =
     \<lparr>jobs = [(''a'', Downloading), (''b'', Downloading), (''c'', Queued), (''d'', Queued),
              (''e'', Queued)], concurrency_limit = 2\<rparr>"
  "limit_respected (initial 2) example_run"
  by (simp_all add: example_run_def sched_eval)

lemma example_run_mid_result:
  "run \<lparr>jobs = [(''a'', Downloading), (''b'', Downloading), (''c'', Queued), (''d'', Queued),
              (''e'', Queued)], concurrency_limit = 2\<rparr> example_run_mid =
     \<lparr>jobs = [(''a'', Done), (''b'', Failed), (''c'', Downloading), (''d'', Canceled),
              (''e'', Fetching)], concurrency_limit = 3\<rparr>"
  "limit_respected \<lparr>jobs = [(''a'', Downloading), (''b'', Downloading), (''c'', Queued),
              (''d'', Queued), (''e'', Queued)], concurrency_limit = 2\<rparr> example_run_mid"
  by (simp_all add: example_run_mid_def sched_eval)

lemma example_run_end_result:
  "run \<lparr>jobs = [(''a'', Done), (''b'', Failed), (''c'', Downloading), (''d'', Canceled),
              (''e'', Fetching)], concurrency_limit = 3\<rparr> example_run_end =
     \<lparr>jobs = [(''a'', Done), (''b'', Failed), (''c'', Downloading), (''d'', Canceled),
              (''e'', Postprocessing), (''f'', Stopped), (''g'', Ready), (''h'', Fetching),
              (''k'', Queued)], concurrency_limit = 2\<rparr>"
  "limit_respected \<lparr>jobs = [(''a'', Done), (''b'', Failed), (''c'', Downloading),
              (''d'', Canceled), (''e'', Fetching)], concurrency_limit = 3\<rparr> example_run_end"
  by (simp_all add: example_run_end_def sched_eval)

lemma example_run_first_completion:
  "run \<lparr>jobs = [(''a'', Downloading), (''b'', Downloading), (''c'', Queued), (''d'', Queued),
              (''e'', Queued)], concurrency_limit = 2\<rparr> [exit_success ''a''] =
     \<lparr>jobs = [(''a'', Done), (''b'', Downloading), (''c'', Fetching), (''d'', Queued),
              (''e'', Queued)], concurrency_limit = 2\<rparr>"
  by (simp add: sched_eval)

text \<open>
  Claim C2, as amended. In every scheduler state reached from the initial one, or from
  any state within the limit, by a run in which the limit is never set below the number
  of jobs active at that moment, the number of jobs whose status is downloading or
  postprocessing does not exceed the configured concurrency limit. And from every
  state, no step of the scheduler raises the number of active jobs above the configured
  limit: after the step it is at most the limit, or at most what it was before.
  (Lowering the limit does not preempt active jobs, so right after it the count can
  exceed the new limit.)
\<close>

theorem active_count_within_limit:
  "(limit_respected (initial n) ops \<longrightarrow>
      active_count (run (initial n) ops) \<le> concurrency_limit (run (initial n) ops))
   \<and> (active_count sch \<le> concurrency_limit sch \<and> limit_respected sch ops \<longrightarrow>
      active_count (run sch ops) \<le> concurrency_limit (run sch ops))
   \<and> active_count (sched_step a sch) \<le> max (active_count sch) (concurrency_limit (sched_step a sch))"
proof -
  have "active_count (initial n) \<le> concurrency_limit (initial n)"
    by (simp add: initial_def active_count_def)
  then show ?thesis
    using run_invariant [of "initial n" ops] run_invariant [of sch ops]
      sched_step_no_overshoot [of a sch] by blast
qed

text \<open>
  Under the limit 2, two of five submitted jobs reach downloading and three remain
  queued; the completion of one admits exactly one more, to fetching. Further on, the
  limit being raised to 3 and set back to 2 when two jobs are active, a state is
  reached that holds all nine statuses.
\<close>

theorem active_count_within_limit_witness:
  "limit_respected (initial 2) example_run_on
   \<and> map snd (jobs (run (initial 2) example_run)) =
       [Downloading, Downloading, Queued, Queued, Queued]
   \<and> map snd (jobs (run (initial 2) (example_run @ [exit_success ''a'']))) =
       [Done, Downloading, Fetching, Queued, Queued]
   \<and> map snd (jobs (run (initial 2) example_run_on)) =
       [Done, Failed, Downloading, Canceled, Postprocessing, Stopped, Ready, Fetching, Queued]
   \<and> active_count (run (initial 2) example_run_on) = 2
   \<and> concurrency_limit (run (initial 2) example_run_on) = 2"
proof -
  have r: "run (initial 2) example_run_on =
     \<lparr>jobs = [(''a'', Done), (''b'', Failed), (''c'', Downloading), (''d'', Canceled),
              (''e'', Postprocessing), (''f'', Stopped), (''g'', Ready), (''h'', Fetching),
              (''k'', Queued)], concurrency_limit = 2\<rparr>"
    by (simp only: example_run_on_def run_append example_run_result example_run_mid_result
        example_run_end_result)
  have l: "limit_respected (initial 2) example_run_on"
    by (simp only: example_run_on_def run_append limit_respected_append example_run_result
        example_run_mid_result example_run_end_result simp_thms)
  have f: "run (initial 2) (example_run @ [exit_success ''a'']) =
     \<lparr>jobs = [(''a'', Done), (''b'', Downloading), (''c'', Fetching), (''d'', Queued),
              (''e'', Queued)], concurrency_limit = 2\<rparr>"
    by (simp only: run_append example_run_result example_run_first_completion)
  have "active_count (run (initial 2) example_run_on)
      \<le> concurrency_limit (run (initial 2) example_run_on)"
    using active_count_within_limit [of 2 example_run_on] l by blast
  then show ?thesis
    using l by (simp add: r f example_run_result active_count_def count_active_def is_active_def)
qed

text \<open>
  The claim as first stated fails when the limit is lowered at run time: two jobs are
  downloading under the limit 2, the limit is set to 1, and both are still active.
\<close>

theorem lowered_limit_counterexample:
  "map snd (jobs (run (initial 2)
       [submit ''a'', probe_succeeded ''a'', admit_ready ''a'',
        submit ''b'', admit_fetching ''b'', set_limit 1])) = [Downloading, Downloading]
   \<and> active_count (run (initial 2)
       [submit ''a'', probe_succeeded ''a'', admit_ready ''a'',
        submit ''b'', admit_fetching ''b'', set_limit 1]) = 2
   \<and> concurrency_limit (run (initial 2)
       [submit ''a'', probe_succeeded ''a'', admit_ready ''a'',
        submit ''b'', admit_fetching ''b'', set_limit 1]) = 1"
  by (simp add: initial_def admit_next_def admit_to_downloading_def active_count_def
      count_active_def is_active_def)

section \<open>Properties of the events of a job\<close>






lemma emit_subseq: "subseq (emit s os) os"
  by (induction s os rule: emit.induct) (auto split: option.splits)


lemma emit_Done [simp]: "emit Done os = []"
  by (induction os) (auto simp: is_active_def split: option.splits)

lemma emit_Canceled [simp]: "emit Canceled os = []"
  by (induction os) (auto simp: is_active_def split: option.splits)















section \<open>Properties of the tool status\<close>



end
